theory Spec2Isabelle
  imports Main
begin

section \<open>Data model\<close>

text \<open>
  The application is a React component \<^verbatim>\<open>App\<close> holding four pieces of state
  (\<^verbatim>\<open>timeEntries\<close>, \<^verbatim>\<open>changes\<close>, \<^verbatim>\<open>currentDate\<close>, \<^verbatim>\<open>activeTimeEntry\<close>) and a start-up
  script that reads the persisted change-set. Every handler computes new values from the
  state of the current render and replaces whole state variables; no handler sets the same
  variable twice, so a handler is a function from state to state.

  A value that may be \<^verbatim>\<open>undefined\<close> (or \<^verbatim>\<open>null\<close>) is an \<open>option\<close>, \<open>None\<close> being
  \<^verbatim>\<open>undefined\<close>. The \<^verbatim>\<open>number\<close> field \<^verbatim>\<open>time\<close> counts whole seconds: it is an
  integer-valued double, written as an \<open>int\<close>, and the one addition of the program rounds
  as a double does (\<open>js_add\<close>).
  The type \<^verbatim>\<open>Moment\<close> of the date library is a type parameter \<open>'m\<close>, and its method
  \<^verbatim>\<open>dayOfYear()\<close> is a parameter of the render and of what depends on it.
\<close>

type_synonym EntryId = string

text \<open>
  A property of a \<^verbatim>\<open>Partial<TimeEntry>\<close> object: the key is absent, or it is present and
  holds \<^verbatim>\<open>undefined\<close> (the card's date picker dispatches \<^verbatim>\<open>{ date: d || undefined }\<close>), or
  it is present and holds a value.
\<close>

datatype 'a optional = Absent | Undefined | Value 'a

text \<open>The four keys of \<^verbatim>\<open>TimeEntry\<close>; \<^verbatim>\<open>id\<close> is written \<open>id'\<close>.\<close>

record ('i, 'n, 't, 'd) fields =
  id' :: 'i
  "notes" :: 'n
  time :: 't
  date :: 'd

text \<open>
  A \<^verbatim>\<open>TimeEntry\<close> object at run time: the spread in \<^verbatim>\<open>save\<close> and in the derived view can
  store \<^verbatim>\<open>undefined\<close> in any field, so every field is an \<open>option\<close>.
\<close>

type_synonym 'm TimeEntry = "(EntryId option, string option, int option, 'm option) fields"

type_synonym 'm Partial = "(EntryId optional, string optional, int optional, 'm optional) fields"

text \<open>
  \<^verbatim>\<open>ChangedEntries = Record<EntryId, Partial<TimeEntry>>\<close>: the own properties of the
  object, as a map from id to partial record.
\<close>

type_synonym 'm ChangedEntries = "EntryId \<rightharpoonup> 'm Partial"

record 'm AppState =
  timeEntries :: "'m TimeEntry list"
  changes :: "'m ChangedEntries"
  currentDate :: "'m option"
  activeTimeEntry :: "EntryId option"

datatype error = TypeError

section \<open>Object spread and property access\<close>

text \<open>The empty object literal \<^verbatim>\<open>{}\<close> as a partial record.\<close>

definition empty_partial :: "'m Partial" where
  "empty_partial = \<lparr>id' = Absent, notes = Absent, time = Absent, date = Absent\<rparr>"

text \<open>Reading a property: an absent key reads as \<^verbatim>\<open>undefined\<close>.\<close>

fun read :: "'a optional \<Rightarrow> 'a option" where
  "read Absent = None"
| "read Undefined = None"
| "read (Value v) = Some v"

text \<open>
  One key of \<^verbatim>\<open>{ ...a, ...b }\<close>: an own property of \<^verbatim>\<open>b\<close> replaces that of \<^verbatim>\<open>a\<close>, also
  when it holds \<^verbatim>\<open>undefined\<close>. \<open>over\<close> is the case where \<^verbatim>\<open>a\<close> is a partial record,
  \<open>onto\<close> the case where \<^verbatim>\<open>a\<close> is an entry.
\<close>

fun over :: "'a optional \<Rightarrow> 'a optional \<Rightarrow> 'a optional" where
  "over a Absent = a"
| "over a Undefined = Undefined"
| "over a (Value v) = Value v"

fun onto :: "'a option \<Rightarrow> 'a optional \<Rightarrow> 'a option" where
  "onto a Absent = a"
| "onto a Undefined = None"
| "onto a (Value v) = Some v"

text \<open>\<^verbatim>\<open>{ ...currentChanges, ...updates }\<close>\<close>

definition spread_partial :: "'m Partial \<Rightarrow> 'm Partial \<Rightarrow> 'm Partial" where
  "spread_partial a b =
     \<lparr>id' = over (id' a) (id' b), notes = over (notes a) (notes b),
      time = over (time a) (time b), date = over (date a) (date b)\<rparr>"

text \<open>\<^verbatim>\<open>{ ...te, ...itemChanges }\<close>\<close>

definition spread_entry :: "'m TimeEntry \<Rightarrow> 'm Partial \<Rightarrow> 'm TimeEntry" where
  "spread_entry te b =
     \<lparr>id' = onto (id' te) (id' b), notes = onto (notes te) (notes b),
      time = onto (time te) (time b), date = onto (date te) (date b)\<rparr>"

text \<open>
  \<^verbatim>\<open>changes[te.id]\<close>: a property key is a string, and an \<^verbatim>\<open>undefined\<close> key is the
  string \<^verbatim>\<open>"undefined"\<close>.
\<close>

fun prop_key :: "EntryId option \<Rightarrow> EntryId" where
  "prop_key None = ''undefined''"
| "prop_key (Some i) = i"

text \<open>\<^verbatim>\<open>timeEntries.find(te => te.id === id)\<close>\<close>

definition find_entry :: "'m TimeEntry list \<Rightarrow> EntryId \<Rightarrow> 'm TimeEntry option" where
  "find_entry tes i = find (\<lambda>te. id' te = Some i) tes"

section \<open>State handlers\<close>

text \<open>
  \<^verbatim>\<open>
  const change = (id, updates) => {
    const currentChanges = changes[id] || {};
    const newItem = { ...currentChanges, ...updates };
    const newState = { ...changes, [id]: newItem };
    setChanges(newState);
  };
  \<close>
\<close>

definition change :: "'m AppState \<Rightarrow> EntryId \<Rightarrow> 'm Partial \<Rightarrow> 'm AppState" where
  "change s i updates =
     (let currentChanges = (case changes s i of None \<Rightarrow> empty_partial | Some c \<Rightarrow> c);
          newItem = spread_partial currentChanges updates;
          newState = (changes s)(i \<mapsto> newItem)
      in s\<lparr>changes := newState\<rparr>)"

text \<open>
  The operands of \<^verbatim>\<open>||\<close> in the tick are numbers or \<^verbatim>\<open>undefined\<close>: \<^verbatim>\<open>undefined\<close> and
  \<^verbatim>\<open>0\<close> are falsy, every other number is truthy.
\<close>

fun truthy :: "int option \<Rightarrow> bool" where
  "truthy None = False"
| "truthy (Some t) = (t \<noteq> 0)"

definition js_or :: "int option \<Rightarrow> int option \<Rightarrow> int option" where
  "js_or a b = (if truthy a then a else b)"

text \<open>\<^verbatim>\<open>x || 0\<close>, which is a number.\<close>

fun or_zero :: "int option \<Rightarrow> int" where
  "or_zero None = 0"
| "or_zero (Some t) = (if t \<noteq> 0 then t else 0)"

text \<open>
  \<^verbatim>\<open>changes[activeTimeEntry]?.time || timeEntries.find(te => te.id === activeTimeEntry)?.time || 0\<close>
\<close>

definition currentTime :: "'m AppState \<Rightarrow> EntryId \<Rightarrow> int" where
  "currentTime s a =
     or_zero (js_or (case changes s a of None \<Rightarrow> None | Some c \<Rightarrow> read (time c))
                    (case find_entry (timeEntries s) a of None \<Rightarrow> None | Some te \<Rightarrow> time te))"

text \<open>
  \<^verbatim>\<open>currentTime + 1\<close> on numbers: the double nearest to the exact sum, ties to the even
  significand. A double of magnitude \<open>m\<close> has a significand of 53 bits, so the doubles
  around \<open>m\<close> are the multiples of \<open>ulp m\<close>: every integer below \<open>2 ^ 53\<close>, every
  second one from there to \<open>2 ^ 54\<close>, and so on. (Sums of magnitude \<open>2 ^ 1024\<close> and
  more, which are \<^verbatim>\<open>Infinity\<close>, are out of the model.)
\<close>

fun ulp :: "nat \<Rightarrow> nat" where
  "ulp m = (if m < 2 ^ 53 then 1 else 2 * ulp (m div 2))"

definition round_nat :: "nat \<Rightarrow> nat" where
  "round_nat m =
     (let u = ulp m; q = m div u; r = m mod u
      in (if 2 * r < u \<or> (2 * r = u \<and> even q) then q else q + 1) * u)"

definition round_double :: "int \<Rightarrow> int" where
  "round_double n = (if n < 0 then - int (round_nat (nat (- n))) else int (round_nat (nat n)))"

definition js_add :: "int \<Rightarrow> int \<Rightarrow> int" where
  "js_add a b = round_double (a + b)"

text \<open>
  The callback of \<^verbatim>\<open>useInterval(..., 1000)\<close>. The guard \<^verbatim>\<open>if (activeTimeEntry)\<close> is a
  truthiness test on a string or \<^verbatim>\<open>undefined\<close>: the empty string is falsy.
\<close>

definition tick :: "'m AppState \<Rightarrow> 'm AppState" where
  "tick s =
     (case activeTimeEntry s of
        None \<Rightarrow> s
      | Some a \<Rightarrow>
          if a = [] then s
          else change s a (empty_partial\<lparr>time := Value (js_add (currentTime s a) 1)\<rparr>))"

definition start :: "'m AppState \<Rightarrow> EntryId \<Rightarrow> 'm AppState" where
  "start s i = s\<lparr>activeTimeEntry := Some i\<rparr>"

definition pause :: "'m AppState \<Rightarrow> 'm AppState" where
  "pause s = s\<lparr>activeTimeEntry := None\<rparr>"

text \<open>
  \<^verbatim>\<open>
  const clearChanges = (id) => {
    const newChanges = {...changes};
    delete newChanges[id];
    setChanges(newChanges);
  }
  \<close>
\<close>

definition clearChanges :: "'m AppState \<Rightarrow> EntryId \<Rightarrow> 'm AppState" where
  "clearChanges s i = s\<lparr>changes := (changes s)(i := None)\<rparr>"

text \<open>
  \<^verbatim>\<open>pause\<close> and \<^verbatim>\<open>clearChanges\<close> set different state variables, both computed from the
  state of the current render.
\<close>

definition revert :: "'m AppState \<Rightarrow> EntryId \<Rightarrow> 'm AppState" where
  "revert s i = clearChanges (if activeTimeEntry s = Some i then pause s else s) i"

text \<open>
  \<^verbatim>\<open>
  const save = (id) => {
    const existingItem = timeEntries.find(te => te.id === id);
    if(!changes[id] || !existingItem){ return; }
    const itemChanges = changes[id];
    const updatedItem = {...existingItem, ...itemChanges};
    setTimeEntries(timeEntries.map(te => te.id === id ? updatedItem : te ));
    clearChanges(id);
  }
  \<close>
\<close>

definition save :: "'m AppState \<Rightarrow> EntryId \<Rightarrow> 'm AppState" where
  "save s i =
     (case find_entry (timeEntries s) i of
        None \<Rightarrow> s
      | Some existingItem \<Rightarrow>
          (case changes s i of
             None \<Rightarrow> s
           | Some itemChanges \<Rightarrow>
               (let updatedItem = spread_entry existingItem itemChanges
                in clearChanges
                     (s\<lparr>timeEntries :=
                          map (\<lambda>te. if id' te = Some i then updatedItem else te) (timeEntries s)\<rparr>)
                     i)))"

text \<open>The date picker's \<^verbatim>\<open>onChange={setCurrentDate}\<close>; \<open>None\<close> is a cleared picker.\<close>

definition setCurrentDate :: "'m AppState \<Rightarrow> 'm option \<Rightarrow> 'm AppState" where
  "setCurrentDate s d = s\<lparr>currentDate := d\<rparr>"

section \<open>Derived view\<close>

text \<open>\<^verbatim>\<open>changes[te.id] ? { ...te, ...changes[te.id] } : te\<close>\<close>

definition withChanges :: "'m ChangedEntries \<Rightarrow> 'm TimeEntry \<Rightarrow> 'm TimeEntry" where
  "withChanges ch te =
     (case ch (prop_key (id' te)) of None \<Rightarrow> te | Some c \<Rightarrow> spread_entry te c)"

text \<open>
  \<^verbatim>\<open>.filter((te) => te.date.dayOfYear() === currentDate?.dayOfYear())\<close>: the callback
  runs on the elements from left to right; calling a method of an \<^verbatim>\<open>undefined\<close> date
  throws, and the whole render with it. \<^verbatim>\<open>currentDate?.dayOfYear()\<close> is \<^verbatim>\<open>undefined\<close>
  for a cleared selected date, which no number is strictly equal to.
\<close>

fun filterByDay :: "('m \<Rightarrow> nat) \<Rightarrow> 'm option \<Rightarrow> 'm TimeEntry list \<Rightarrow> error + 'm TimeEntry list" where
  "filterByDay dayOfYear cur [] = Inr []"
| "filterByDay dayOfYear cur (te # tes) =
     (case date te of
        None \<Rightarrow> Inl TypeError
      | Some d \<Rightarrow>
          (case filterByDay dayOfYear cur tes of
             Inl e \<Rightarrow> Inl e
           | Inr kept \<Rightarrow>
               Inr (if Some (dayOfYear d) = map_option dayOfYear cur then te # kept else kept)))"

definition timeEntriesWithChanges :: "('m \<Rightarrow> nat) \<Rightarrow> 'm AppState \<Rightarrow> error + 'm TimeEntry list" where
  "timeEntriesWithChanges dayOfYear s =
     filterByDay dayOfYear (currentDate s) (map (withChanges (changes s)) (timeEntries s))"

text \<open>\<^verbatim>\<open>dirtyItems={Object.keys(changes)}\<close> and \<^verbatim>\<open>isDirty={dirtyItems.includes(te.id)}\<close>\<close>

definition dirtyItems :: "'m AppState \<Rightarrow> EntryId set" where
  "dirtyItems s = dom (changes s)"

section \<open>Presentation layer\<close>

text \<open>
  What the user and the timer can do to a state. \<^verbatim>\<open>TimeEntryList\<close> renders one card per
  entry of the derived list, and a card passes its entry's id to the handlers. The
  controls exist only while the component is mounted, that is while the last render
  returned: a render that throws unmounts the application.
\<close>

definition mounted :: "('m \<Rightarrow> nat) \<Rightarrow> 'm AppState \<Rightarrow> bool" where
  "mounted dayOfYear s =
     (case timeEntriesWithChanges dayOfYear s of Inl e \<Rightarrow> False | Inr visible \<Rightarrow> True)"

text \<open>The card of the entry with id \<open>i\<close> is on the page.\<close>

definition has_card :: "('m \<Rightarrow> nat) \<Rightarrow> 'm AppState \<Rightarrow> EntryId \<Rightarrow> bool" where
  "has_card dayOfYear s i =
     (case timeEntriesWithChanges dayOfYear s of
        Inl e \<Rightarrow> False
      | Inr visible \<Rightarrow> list_ex (\<lambda>te. id' te = Some i) visible)"

text \<open>
  The interval callback, the page's date picker, and per card: the Start button
  (\<^verbatim>\<open>!isActive\<close>), the Pause button (\<^verbatim>\<open>isActive\<close>), the notes input, the date picker, and
  the Save and Revert buttons (\<^verbatim>\<open>isDirty\<close>). The New button only logs.
\<close>

datatype 'm event =
    Tick
  | SelectDate "'m option"
  | Start EntryId
  | Pause EntryId
  | EditNotes EntryId string
  | EditDate EntryId "'m option"
  | Save EntryId
  | Revert EntryId

fun enabled :: "('m \<Rightarrow> nat) \<Rightarrow> 'm AppState \<Rightarrow> 'm event \<Rightarrow> bool" where
  "enabled dayOfYear s Tick = mounted dayOfYear s"
| "enabled dayOfYear s (SelectDate d) = mounted dayOfYear s"
| "enabled dayOfYear s (Start i) = (has_card dayOfYear s i \<and> activeTimeEntry s \<noteq> Some i)"
| "enabled dayOfYear s (Pause i) = (has_card dayOfYear s i \<and> activeTimeEntry s = Some i)"
| "enabled dayOfYear s (EditNotes i str) = has_card dayOfYear s i"
| "enabled dayOfYear s (EditDate i d) = has_card dayOfYear s i"
| "enabled dayOfYear s (Save i) = (has_card dayOfYear s i \<and> changes s i \<noteq> None)"
| "enabled dayOfYear s (Revert i) = (has_card dayOfYear s i \<and> changes s i \<noteq> None)"

text \<open>
  The handler call each control makes: \<^verbatim>\<open>onChange({ notes: e.target.value })\<close> and
  \<^verbatim>\<open>onChange({ date: d || undefined })\<close> for the two inputs of a card.
\<close>

fun dispatch :: "'m AppState \<Rightarrow> 'm event \<Rightarrow> 'm AppState" where
  "dispatch s Tick = tick s"
| "dispatch s (SelectDate d) = setCurrentDate s d"
| "dispatch s (Start i) = start s i"
| "dispatch s (Pause i) = pause s"
| "dispatch s (EditNotes i str) = change s i (empty_partial\<lparr>notes := Value str\<rparr>)"
| "dispatch s (EditDate i d) =
     change s i (empty_partial\<lparr>date := (case d of None \<Rightarrow> Undefined | Some m \<Rightarrow> Value m)\<rparr>)"
| "dispatch s (Save i) = save s i"
| "dispatch s (Revert i) = revert s i"

text \<open>The states of the runs that start in \<open>s0\<close>.\<close>

inductive reachable :: "('m \<Rightarrow> nat) \<Rightarrow> 'm AppState \<Rightarrow> 'm AppState \<Rightarrow> bool"
  for dayOfYear :: "'m \<Rightarrow> nat" and s0 :: "'m AppState" where
  initial: "reachable dayOfYear s0 s0"
| step: "reachable dayOfYear s0 s \<Longrightarrow> enabled dayOfYear s e \<Longrightarrow> reachable dayOfYear s0 (dispatch s e)"

section \<open>Start-up\<close>

text \<open>
  The seed list \<^verbatim>\<open>EXISTING_TE\<close>; its two dates are the two calls of \<^verbatim>\<open>moment()\<close>
  made when the module loads.
\<close>

definition EXISTING_TE :: "'m \<Rightarrow> 'm \<Rightarrow> 'm TimeEntry list" where
  "EXISTING_TE d1 d2 =
     [\<lparr>id' = Some ''1'', notes = Some ''GST: hello world'', time = Some 0, date = Some d1\<rparr>,
      \<lparr>id' = Some ''2'', notes = Some ''GST: another item'', time = Some 0, date = Some d2\<rparr>]"

text \<open>
  The four \<^verbatim>\<open>useState\<close> initial values of \<^verbatim>\<open>App\<close>, for a \<^verbatim>\<open>savedChanges\<close> prop of
  the declared type \<^verbatim>\<open>ChangedEntries\<close>; \<open>now\<close> is the \<^verbatim>\<open>moment()\<close> of the first
  render.
\<close>

definition App_init :: "'m ChangedEntries \<Rightarrow> 'm \<Rightarrow> 'm \<Rightarrow> 'm \<Rightarrow> 'm AppState" where
  "App_init savedChanges d1 d2 now =
     \<lparr>timeEntries = EXISTING_TE d1 d2, changes = savedChanges,
      currentDate = Some now, activeTimeEntry = None\<rparr>"

text \<open>
  The start-up script \<^verbatim>\<open>index.tsx\<close> works on values of type \<^verbatim>\<open>any\<close>: what
  \<^verbatim>\<open>JSON.parse\<close> returns. \<^verbatim>\<open>JSON.parse\<close> itself is a parameter \<open>parse\<close>, \<open>None\<close> being
  a thrown \<^verbatim>\<open>SyntaxError\<close>; local storage is a map from keys to strings, \<open>None\<close> being
  the \<^verbatim>\<open>null\<close> that \<^verbatim>\<open>getItem\<close> returns for a missing key.
\<close>

datatype json =
  JNull | JBool bool | JNum int | JStr string | JArr "json list" | JObj "(string \<times> json) list"

definition LOCAL_KEY_CHANGES :: string where
  "LOCAL_KEY_CHANGES = ''changes''"

text \<open>
  \<^verbatim>\<open>
  let localData = window.localStorage.getItem(LOCAL_KEY_CHANGES) as any;
  try{
    localData = localData ? JSON.parse(localData) : {};
  }catch(e){
    localData = {};
  }
  \<close>
  The empty string is falsy, as \<^verbatim>\<open>null\<close> is.
\<close>

definition localData :: "(string \<Rightarrow> json option) \<Rightarrow> (string \<rightharpoonup> string) \<Rightarrow> json" where
  "localData parse storage =
     (case storage LOCAL_KEY_CHANGES of
        None \<Rightarrow> JObj []
      | Some str \<Rightarrow>
          if str = [] then JObj []
          else (case parse str of None \<Rightarrow> JObj [] | Some v \<Rightarrow> v))"

text \<open>
  A props object is a list of named values; a value is parsed data or a callback.
  \<^verbatim>\<open><App initChanges={localData} onSaveChanges={updateLocalStorage} />\<close>
\<close>

datatype propValue = Data json | Callback

definition index_props :: "(string \<Rightarrow> json option) \<Rightarrow> (string \<rightharpoonup> string) \<Rightarrow> (string \<times> propValue) list" where
  "index_props parse storage =
     [(''initChanges'', Data (localData parse storage)), (''onSaveChanges'', Callback)]"

text \<open>
  \<^verbatim>\<open>const { savedChanges, onSaveChanges } = props;\<close> followed by
  \<^verbatim>\<open>useState<ChangedEntries>(savedChanges)\<close>: the initial value of the \<^verbatim>\<open>changes\<close> state
  is the property \<^verbatim>\<open>savedChanges\<close> of the props object, \<open>None\<close> being \<^verbatim>\<open>undefined\<close>.
\<close>

definition initial_changes :: "(string \<times> propValue) list \<Rightarrow> propValue option" where
  "initial_changes props = map_of props ''savedChanges''"

text \<open>The value of the \<^verbatim>\<open>changes\<close> state after the first render of the page.\<close>

definition startup_changes :: "(string \<Rightarrow> json option) \<Rightarrow> (string \<rightharpoonup> string) \<Rightarrow> propValue option" where
  "startup_changes parse storage = initial_changes (index_props parse storage)"

section \<open>Vocabulary of the properties\<close>


text \<open>
  \<open>carries c u\<close>: the record \<open>c\<close> has every field that \<open>u\<close> supplies, with the value
  \<open>u\<close> gives it. \<open>keeps c a u\<close>: on the fields that \<open>u\<close> does not supply, \<open>c\<close> is as
  \<open>a\<close>. \<open>disjoint_fields u v\<close>: no field is supplied by both.
\<close>

definition carries :: "'m Partial \<Rightarrow> 'm Partial \<Rightarrow> bool" where
  "carries c u =
     ((id' u \<noteq> Absent \<longrightarrow> id' c = id' u) \<and> (notes u \<noteq> Absent \<longrightarrow> notes c = notes u) \<and>
      (time u \<noteq> Absent \<longrightarrow> time c = time u) \<and> (date u \<noteq> Absent \<longrightarrow> date c = date u))"

definition keeps :: "'m Partial \<Rightarrow> 'm Partial \<Rightarrow> 'm Partial \<Rightarrow> bool" where
  "keeps c a u =
     ((id' u = Absent \<longrightarrow> id' c = id' a) \<and> (notes u = Absent \<longrightarrow> notes c = notes a) \<and>
      (time u = Absent \<longrightarrow> time c = time a) \<and> (date u = Absent \<longrightarrow> date c = date a))"

definition disjoint_fields :: "'m Partial \<Rightarrow> 'm Partial \<Rightarrow> bool" where
  "disjoint_fields u v =
     ((id' u = Absent \<or> id' v = Absent) \<and> (notes u = Absent \<or> notes v = Absent) \<and>
      (time u = Absent \<or> time v = Absent) \<and> (date u = Absent \<or> date v = Absent))"


text \<open>
  A shallow merge, field by field. \<open>takes m c\<close>: the entry \<open>m\<close> has, in every field
  that the record \<open>c\<close> supplies, what \<open>c\<close> holds there. \<open>retains m e c\<close>: in every
  field that \<open>c\<close> does not supply, \<open>m\<close> is as the entry \<open>e\<close>.
\<close>

definition takes :: "'m TimeEntry \<Rightarrow> 'm Partial \<Rightarrow> bool" where
  "takes m c =
     ((id' c \<noteq> Absent \<longrightarrow> id' m = read (id' c)) \<and> (notes c \<noteq> Absent \<longrightarrow> notes m = read (notes c)) \<and>
      (time c \<noteq> Absent \<longrightarrow> time m = read (time c)) \<and> (date c \<noteq> Absent \<longrightarrow> date m = read (date c)))"

definition retains :: "'m TimeEntry \<Rightarrow> 'm TimeEntry \<Rightarrow> 'm Partial \<Rightarrow> bool" where
  "retains m e c =
     ((id' c = Absent \<longrightarrow> id' m = id' e) \<and> (notes c = Absent \<longrightarrow> notes m = notes e) \<and>
      (time c = Absent \<longrightarrow> time m = time e) \<and> (date c = Absent \<longrightarrow> date m = date e))"

text \<open>
  The merged view of an entry as the specification words it: the canonical entry when
  the change-set has no record for its id, otherwise the canonical entry with the
  overrides of the record applied per field.
\<close>

definition override :: "'a option \<Rightarrow> 'a optional \<Rightarrow> 'a option" where
  "override canonical pending =
     (case pending of Absent \<Rightarrow> canonical | Undefined \<Rightarrow> None | Value v \<Rightarrow> Some v)"

definition merged_spec :: "'m ChangedEntries \<Rightarrow> 'm TimeEntry \<Rightarrow> 'm TimeEntry" where
  "merged_spec ch te =
     (case ch (prop_key (id' te)) of
        None \<Rightarrow> te
      | Some c \<Rightarrow>
          \<lparr>id' = override (id' te) (id' c), notes = override (notes te) (notes c),
           time = override (time te) (time c), date = override (date te) (date c)\<rparr>)"

text \<open>
  The visible list as the specification words it: merge every canonical entry with its
  change-set record, then keep the merged entries whose date has the day-of-year of the
  selected date. An entry without a date, or a cleared selected date, gives no match.
\<close>

definition same_day :: "('m \<Rightarrow> nat) \<Rightarrow> 'm option \<Rightarrow> 'm TimeEntry \<Rightarrow> bool" where
  "same_day dayOfYear cur te =
     (case date te of
        None \<Rightarrow> False
      | Some d \<Rightarrow> (case cur of None \<Rightarrow> False | Some c \<Rightarrow> dayOfYear d = dayOfYear c))"

definition visible_spec :: "('m \<Rightarrow> nat) \<Rightarrow> 'm AppState \<Rightarrow> 'm TimeEntry list" where
  "visible_spec dayOfYear s =
     filter (same_day dayOfYear (currentDate s)) (map (merged_spec (changes s)) (timeEntries s))"

text \<open>Every merged entry of the state has a date.\<close>

definition dated :: "'m AppState \<Rightarrow> bool" where
  "dated s = list_all (\<lambda>te. date (withChanges (changes s) te) \<noteq> None) (timeEntries s)"


text \<open>
  What holds in every state of a run that starts from the seed entries with an empty
  change-set: the two entries keep their ids; canonical times are not negative; a
  change-set record has a field, no id field, and a positive time if it has a time; the
  active id is that of an entry; and while no date is selected every merged entry has a
  date.
\<close>

definition pending_ok :: "'m Partial \<Rightarrow> bool" where
  "pending_ok c =
     (c \<noteq> empty_partial \<and> id' c = Absent \<and>
      (case time c of Absent \<Rightarrow> True | Undefined \<Rightarrow> False | Value t \<Rightarrow> 1 \<le> t))"

definition canonical_ok :: "'m TimeEntry \<Rightarrow> bool" where
  "canonical_ok te = (case time te of None \<Rightarrow> False | Some t \<Rightarrow> 0 \<le> t)"

definition run_inv :: "'m AppState \<Rightarrow> bool" where
  "run_inv s =
     (map id' (timeEntries s) = [Some ''1'', Some ''2''] \<and>
      list_all canonical_ok (timeEntries s) \<and>
      (\<forall>i c. changes s i = Some c \<longrightarrow> pending_ok c) \<and>
      (activeTimeEntry s = None \<or> activeTimeEntry s = Some ''1'' \<or> activeTimeEntry s = Some ''2'') \<and>
      (currentDate s \<noteq> None \<or> dated s))"

text \<open>
  Concrete data for the examples: a date is a pair of a year and a day of the year, and
  \<^verbatim>\<open>dayOfYear()\<close> reads the second component.
\<close>

type_synonym day = "nat \<times> nat"

definition day_of_year :: "day \<Rightarrow> nat" where
  "day_of_year d = snd d"

definition entry1 :: "day TimeEntry" where
  "entry1 = \<lparr>id' = Some ''1'', notes = Some ''GST: hello world'', time = Some 5, date = Some (2021, 32)\<rparr>"

definition entry2 :: "day TimeEntry" where
  "entry2 = \<lparr>id' = Some ''2'', notes = Some ''GST: another item'', time = Some 0, date = Some (2021, 40)\<rparr>"

text \<open>Two entries, nothing pending, no timer running, the first entry's day selected.\<close>

definition clean_state :: "day AppState" where
  "clean_state =
     \<lparr>timeEntries = [entry1, entry2], changes = Map.empty,
      currentDate = Some (2021, 32), activeTimeEntry = None\<rparr>"

text \<open>The timer runs on entry 1, which has a pending time of 7 and a pending note.\<close>

definition running_state :: "day AppState" where
  "running_state =
     clean_state
       \<lparr>changes := [''1'' \<mapsto> empty_partial\<lparr>notes := Value ''GST: edited'', time := Value 7\<rparr>],
        activeTimeEntry := Some ''1''\<rparr>"

text \<open>
  A stored change-set and what \<^verbatim>\<open>JSON.parse\<close> returns for it; \<open>parse_example\<close> throws
  on every other string.
\<close>

definition stored_example :: string where
  \<open>stored_example = ''{"1":{"time":3}}''\<close>

definition parse_example :: "string \<Rightarrow> json option" where
  "parse_example str =
     (if str = stored_example then Some (JObj [(''1'', JObj [(''time'', JNum 3)])]) else None)"

definition storage_example :: "string \<rightharpoonup> string" where
  "storage_example = [''changes'' \<mapsto> stored_example]"

text \<open>
  The example of the specification: the seed entries, all dated the selected day, then
  \<^verbatim>\<open>start("1")\<close> and three ticks.
\<close>

definition seeded_state :: "day AppState" where
  "seeded_state = App_init Map.empty (2021, 32) (2021, 32) (2021, 32)"

definition three_ticks :: "day AppState" where
  "three_ticks = tick (tick (tick (start seeded_state ''1'')))"

text \<open>The seeded application after the date field of card 1 has been cleared.\<close>

definition cleared_card_state :: "day AppState" where
  "cleared_card_state = dispatch seeded_state (EditDate ''1'' None)"

text \<open>
  The seeded application with the timer on entry 1 after \<open>n\<close> ticks that added 1 each,
  and the state in which the pending time has come to \<open>2 ^ 53\<close>.
\<close>

definition ticking :: "nat \<Rightarrow> day AppState" where
  "ticking n =
     seeded_state
       \<lparr>changes := [''1'' \<mapsto> empty_partial\<lparr>time := Value (int n)\<rparr>], activeTimeEntry := Some ''1''\<rparr>"





section \<open>Facts about the spread\<close>

lemma over_if: "over a b = (if b = Absent then a else b)"
  by (cases b) simp_all

lemma spread_empty: "spread_partial empty_partial u = u"
  by (simp add: spread_partial_def empty_partial_def over_if)

lemma carries_spread: "carries (spread_partial a u) u"
  by (simp add: carries_def spread_partial_def over_if)

lemma keeps_spread: "keeps (spread_partial a u) a u"
  by (simp add: keeps_def spread_partial_def over_if)

lemma carries_spread_disjoint:
  "disjoint_fields u v \<Longrightarrow> carries c u \<Longrightarrow> carries (spread_partial c v) u"
  by (auto simp: carries_def disjoint_fields_def spread_partial_def over_if)

lemma spread_nonempty: "u \<noteq> empty_partial \<Longrightarrow> spread_partial a u \<noteq> empty_partial"
  by (cases u) (auto simp: spread_partial_def empty_partial_def over_if)


lemma changes_change:
  "changes (change s i u) =
     (changes s)(i \<mapsto> spread_partial (case changes s i of None \<Rightarrow> empty_partial | Some c \<Rightarrow> c) u)"
  by (simp add: change_def)

lemma change_frame:
  "timeEntries (change s i u) = timeEntries s \<and> currentDate (change s i u) = currentDate s \<and>
   activeTimeEntry (change s i u) = activeTimeEntry s"
  by (simp add: change_def)

section \<open>Addition of numbers\<close>

declare ulp.simps [simp del]

lemma ulp_small: "m < 2 ^ 53 \<Longrightarrow> ulp m = 1"
  by (simp add: ulp.simps)

lemma ulp_pos: "0 < ulp m"
  by (induction m rule: ulp.induct) (subst ulp.simps, simp)

lemma ulp_le: "1 \<le> m \<Longrightarrow> ulp m \<le> m"
proof (induction m rule: ulp.induct)
  case (1 m)
  show ?case
  proof (cases "m < 2 ^ 53")
    case True
    with "1.prems" show ?thesis by (simp add: ulp_small)
  next
    case False
    then have "1 \<le> m div 2" by simp
    with "1.IH" False have "ulp (m div 2) \<le> m div 2" by simp
    then have "2 * ulp (m div 2) \<le> m" by simp
    with False show ?thesis by (subst ulp.simps) simp
  qed
qed

lemma round_nat_small: "m < 2 ^ 53 \<Longrightarrow> round_nat m = m"
  by (simp add: round_nat_def ulp_small)

lemma round_nat_pos: "1 \<le> m \<Longrightarrow> 1 \<le> round_nat m"
proof -
  assume m: "1 \<le> m"
  let ?u = "ulp m"
  have "1 \<le> m div ?u"
    using ulp_le [OF m] ulp_pos [of m] by (simp add: Suc_le_eq div_greater_zero_iff)
  moreover have "1 \<le> ?u" using ulp_pos [of m] by simp
  ultimately have "1 * 1 \<le> (m div ?u) * ?u" by (rule mult_le_mono)
  moreover have "(m div ?u) * ?u \<le> round_nat m"
    by (simp add: round_nat_def Let_def)
  ultimately show ?thesis by linarith
qed

lemma round_double_exact: "- (2 ^ 53) < n \<Longrightarrow> n < 2 ^ 53 \<Longrightarrow> round_double n = n"
  by (simp add: round_double_def round_nat_small nat_less_iff)

lemma round_double_pos: "1 \<le> n \<Longrightarrow> 1 \<le> round_double n"
proof -
  assume n: "1 \<le> n"
  then have "1 \<le> round_nat (nat n)" by (intro round_nat_pos) simp
  with n show ?thesis by (simp add: round_double_def)
qed

lemma ulp_2_53: "ulp (2 ^ 53) = 2"
  by (subst ulp.simps) (simp add: ulp_small)


lemma round_nat_2_53: "round_nat (2 ^ 53) = 2 ^ 53"
  unfolding round_nat_def Let_def ulp_2_53 by simp



lemma js_add_exact: "0 \<le> t \<Longrightarrow> t < 2 ^ 53 - 1 \<Longrightarrow> js_add t 1 = t + 1"
  by (simp add: js_add_def round_double_exact)

section \<open>Facts about the derived view\<close>

lemma onto_override: "onto a b = override a b"
  by (cases b) (simp_all add: override_def)

lemma withChanges_merged_spec: "withChanges ch te = merged_spec ch te"
  by (simp add: withChanges_def merged_spec_def spread_entry_def onto_override split: option.splits)

lemma same_day_Some:
  "date te = Some d \<Longrightarrow> same_day dayOfYear cur te = (Some (dayOfYear d) = map_option dayOfYear cur)"
  by (cases cur) (simp_all add: same_day_def)

lemma same_day_cleared: "same_day dayOfYear None te = False"
  by (simp add: same_day_def split: option.splits)

lemma filterByDay_dated:
  "list_all (\<lambda>te. date te \<noteq> None) tes \<Longrightarrow>
   filterByDay dayOfYear cur tes = Inr (filter (same_day dayOfYear cur) tes)"
proof (induction tes)
  case Nil
  then show ?case by simp
next
  case (Cons te tes)
  then obtain d where d: "date te = Some d" by auto
  from Cons have "filterByDay dayOfYear cur tes = Inr (filter (same_day dayOfYear cur) tes)"
    by simp
  then show ?case
    by (simp add: d same_day_Some [OF d])
qed

lemma filterByDay_undated:
  "\<not> list_all (\<lambda>te. date te \<noteq> None) tes \<Longrightarrow> filterByDay dayOfYear cur tes = Inl TypeError"
proof (induction tes)
  case Nil
  then show ?case by simp
next
  case (Cons te tes)
  show ?case
  proof (cases "date te")
    case None
    then show ?thesis by simp
  next
    case (Some d)
    with Cons show ?thesis by simp
  qed
qed

lemma dated_merged:
  "dated s = list_all (\<lambda>te. date te \<noteq> None) (map (withChanges (changes s)) (timeEntries s))"
  by (simp add: dated_def list_all_iff)

lemma view_dated:
  "dated s \<Longrightarrow>
   timeEntriesWithChanges dayOfYear s =
     Inr (filter (same_day dayOfYear (currentDate s)) (map (withChanges (changes s)) (timeEntries s)))"
  by (simp add: timeEntriesWithChanges_def dated_merged filterByDay_dated)

lemma view_undated: "\<not> dated s \<Longrightarrow> timeEntriesWithChanges dayOfYear s = Inl TypeError"
  by (simp add: timeEntriesWithChanges_def dated_merged filterByDay_undated)

lemma mounted_dated: "mounted dayOfYear s = dated s"
  by (cases "dated s") (simp_all add: mounted_def view_dated view_undated)

lemma has_card_iff:
  "has_card dayOfYear s i =
     (dated s \<and> (\<exists>te \<in> set (timeEntries s).
        same_day dayOfYear (currentDate s) (withChanges (changes s) te) \<and>
        id' (withChanges (changes s) te) = Some i))"
  by (cases "dated s") (auto simp: has_card_def view_dated view_undated list_ex_iff)

lemma has_card_selected: "has_card dayOfYear s i \<Longrightarrow> currentDate s \<noteq> None"
proof
  assume c: "has_card dayOfYear s i" and n: "currentDate s = None"
  from c show False
    by (simp add: has_card_iff n same_day_cleared)
qed

lemma has_card_mounted: "has_card dayOfYear s i \<Longrightarrow> dated s"
  by (simp add: has_card_iff)

lemma view_refines_spec:
  "dated s \<Longrightarrow> timeEntriesWithChanges dayOfYear s = Inr (visible_spec dayOfYear s)"
proof -
  have "withChanges (changes s) = merged_spec (changes s)"
    by (rule ext) (rule withChanges_merged_spec)
  then show "dated s \<Longrightarrow> ?thesis"
    by (simp add: view_dated visible_spec_def)
qed

lemma view_cleared:
  "currentDate s = None \<Longrightarrow> dated s \<Longrightarrow> timeEntriesWithChanges dayOfYear s = Inr []"
  by (simp add: view_dated same_day_cleared)

lemma dated_setCurrentDate: "dated (setCurrentDate s d) = dated s"
  by (simp add: dated_def setCurrentDate_def)

section \<open>The states of a run\<close>

lemma run_inv_init: "run_inv (App_init Map.empty d1 d2 now)"
  by (simp add: run_inv_def App_init_def EXISTING_TE_def canonical_ok_def)

lemma run_inv_ids: "run_inv s \<Longrightarrow> map id' (timeEntries s) = [Some ''1'', Some ''2'']"
  by (simp add: run_inv_def)

lemma run_inv_pending: "run_inv s \<Longrightarrow> changes s i = Some c \<Longrightarrow> pending_ok c"
  by (simp add: run_inv_def)

lemma run_inv_canonical: "run_inv s \<Longrightarrow> te \<in> set (timeEntries s) \<Longrightarrow> canonical_ok te"
  by (simp add: run_inv_def list_all_iff)

lemma run_inv_entry_id:
  "run_inv s \<Longrightarrow> te \<in> set (timeEntries s) \<Longrightarrow> id' te = Some ''1'' \<or> id' te = Some ''2''"
proof -
  assume w: "run_inv s" and m: "te \<in> set (timeEntries s)"
  from m have "id' te \<in> set (map id' (timeEntries s))" by simp
  then show ?thesis by (simp add: run_inv_ids [OF w])
qed

lemma run_inv_merged_id:
  assumes "run_inv s" and "te \<in> set (timeEntries s)"
  shows "id' (withChanges (changes s) te) = id' te"
proof (cases "changes s (prop_key (id' te))")
  case None
  then show ?thesis by (simp add: withChanges_def)
next
  case (Some c)
  with run_inv_pending [OF assms(1)] have "id' c = Absent" by (simp add: pending_ok_def)
  with Some show ?thesis by (simp add: withChanges_def spread_entry_def)
qed

lemma run_inv_has_card_id: "run_inv s \<Longrightarrow> has_card dayOfYear s i \<Longrightarrow> i = ''1'' \<or> i = ''2''"
  using run_inv_merged_id [of s] run_inv_entry_id [of s] by (fastforce simp: has_card_iff)

lemma find_entry_Some:
  "find_entry tes i = Some e \<Longrightarrow>
   id' e = Some i \<and> (\<exists>k<length tes. tes ! k = e \<and> (\<forall>j<k. id' (tes ! j) \<noteq> Some i))"
  unfolding find_entry_def by (auto simp: find_Some_iff)

lemma find_entry_mem: "find_entry tes i = Some e \<Longrightarrow> e \<in> set tes"
  using find_entry_Some [of tes i e] by (auto simp: in_set_conv_nth)

lemma read_Some: "read x = Some v \<longleftrightarrow> x = Value v"
  by (cases x) auto

lemma or_zero_nonneg: "(\<And>t. x = Some t \<Longrightarrow> 0 \<le> t) \<Longrightarrow> 0 \<le> or_zero x"
  by (cases x) auto

lemma run_inv_currentTime: "run_inv s \<Longrightarrow> 0 \<le> currentTime s a"
proof -
  assume w: "run_inv s"
  have p: "0 \<le> t" if "changes s a = Some c" "time c = Value t" for c t
    using run_inv_pending [OF w that(1)] that(2) by (simp add: pending_ok_def)
  have c: "0 \<le> t" if "find_entry (timeEntries s) a = Some te" "time te = Some t" for te t
    using run_inv_canonical [OF w find_entry_mem [OF that(1)]] that(2) by (simp add: canonical_ok_def)
  show ?thesis
    unfolding currentTime_def
  proof (rule or_zero_nonneg)
    fix t
    assume "js_or (case changes s a of None \<Rightarrow> None | Some c \<Rightarrow> read (time c))
        (case find_entry (timeEntries s) a of None \<Rightarrow> None | Some te \<Rightarrow> time te) = Some t"
    then show "0 \<le> t"
      using p c by (auto simp: js_or_def read_Some split: option.splits if_splits)
  qed
qed

lemma js_add_one_pos: "0 \<le> t \<Longrightarrow> 1 \<le> js_add t 1"
  by (simp add: js_add_def round_double_pos)

lemma pending_ok_spread:
  assumes "a = empty_partial \<or> pending_ok a"
    and "u \<noteq> empty_partial" and "id' u = Absent"
    and "time u = Absent \<or> (\<exists>t. time u = Value t \<and> 1 \<le> t)"
  shows "pending_ok (spread_partial a u)"
proof -
  have "spread_partial a u \<noteq> empty_partial"
    using assms(2) by (rule spread_nonempty)
  moreover have "id' (spread_partial a u) = Absent"
    using assms(1,3) by (auto simp: spread_partial_def empty_partial_def pending_ok_def)
  moreover have "case time (spread_partial a u) of Absent \<Rightarrow> True | Undefined \<Rightarrow> False | Value t \<Rightarrow> 1 \<le> t"
    using assms(1,4) by (auto simp: spread_partial_def empty_partial_def pending_ok_def over_if)
  ultimately show ?thesis by (simp add: pending_ok_def)
qed

lemma withChanges_change_date:
  assumes "date u = Absent"
  shows "date (withChanges (changes (change s a u)) te) = date (withChanges (changes s) te)"
proof (cases "prop_key (id' te) = a")
  case False
  then show ?thesis by (simp add: withChanges_def changes_change)
next
  case True
  show ?thesis
  proof (cases "changes s a")
    case None
    with True assms show ?thesis
      by (simp add: withChanges_def changes_change spread_entry_def spread_partial_def
          empty_partial_def)
  next
    case (Some c)
    with True assms show ?thesis
      by (simp add: withChanges_def changes_change spread_entry_def spread_partial_def)
  qed
qed

lemma dated_change: "date u = Absent \<Longrightarrow> dated (change s a u) = dated s"
  by (simp add: dated_def change_frame withChanges_change_date)

lemma run_inv_change:
  assumes w: "run_inv s" and u: "u \<noteq> empty_partial" "id' u = Absent"
    and t: "time u = Absent \<or> (\<exists>t. time u = Value t \<and> 1 \<le> t)"
    and d: "currentDate s \<noteq> None \<or> date u = Absent"
  shows "run_inv (change s a u)"
proof -
  let ?old = "case changes s a of None \<Rightarrow> empty_partial | Some c \<Rightarrow> c"
  have "?old = empty_partial \<or> pending_ok ?old"
    using run_inv_pending [OF w, of a] by (simp split: option.splits)
  then have n: "pending_ok (spread_partial ?old u)"
    using u t by (rule pending_ok_spread)
  have p: "\<forall>i c. changes (change s a u) i = Some c \<longrightarrow> pending_ok c"
    using run_inv_pending [OF w] n by (simp add: changes_change)
  have e: "currentDate (change s a u) \<noteq> None \<or> dated (change s a u)"
    using d w by (auto simp: change_frame dated_change run_inv_def)
  show ?thesis
    using w p e by (simp add: run_inv_def change_frame)
qed

lemma run_inv_tick: assumes w: "run_inv s" and m: "dated s" shows "run_inv (tick s)"
proof (cases "activeTimeEntry s")
  case None
  with w show ?thesis by (simp add: tick_def)
next
  case (Some a)
  show ?thesis
  proof (cases "a = []")
    case True
    with Some w show ?thesis by (simp add: tick_def)
  next
    case False
    let ?u = "empty_partial\<lparr>time := Value (js_add (currentTime s a) 1)\<rparr> :: 'a Partial"
    have "1 \<le> js_add (currentTime s a) 1"
      using run_inv_currentTime [OF w] by (rule js_add_one_pos)
    then have "run_inv (change s a ?u)"
      by (intro run_inv_change [OF w]) (simp_all add: empty_partial_def)
    with Some False show ?thesis by (simp add: tick_def)
  qed
qed

lemma run_inv_setCurrentDate: "run_inv s \<Longrightarrow> dated s \<Longrightarrow> run_inv (setCurrentDate s d)"
  by (simp add: run_inv_def setCurrentDate_def dated_def)

lemma run_inv_start: "run_inv s \<Longrightarrow> i = ''1'' \<or> i = ''2'' \<Longrightarrow> run_inv (start s i)"
  by (auto simp: run_inv_def start_def dated_def)

lemma run_inv_pause: "run_inv s \<Longrightarrow> run_inv (pause s)"
  by (simp add: run_inv_def pause_def dated_def)

lemma run_inv_clearChanges: "run_inv s \<Longrightarrow> currentDate s \<noteq> None \<Longrightarrow> run_inv (clearChanges s i)"
  by (simp add: run_inv_def clearChanges_def)

lemma run_inv_revert: "run_inv s \<Longrightarrow> currentDate s \<noteq> None \<Longrightarrow> run_inv (revert s i)"
  by (auto simp: revert_def run_inv_def clearChanges_def pause_def)

lemma canonical_ok_spread:
  "canonical_ok e \<Longrightarrow> pending_ok c \<Longrightarrow> canonical_ok (spread_entry e c)"
  by (auto simp: canonical_ok_def pending_ok_def spread_entry_def split: optional.splits option.splits)

lemma run_inv_save: assumes w: "run_inv s" and d: "currentDate s \<noteq> None" shows "run_inv (save s i)"
proof (cases "find_entry (timeEntries s) i")
  case None
  with w show ?thesis by (simp add: save_def)
next
  case (Some e)
  show ?thesis
  proof (cases "changes s i")
    case None
    with w show ?thesis by (simp add: save_def split: option.splits)
  next
    case c: (Some c)
    let ?m = "spread_entry e c"
    let ?f = "\<lambda>te. if id' te = Some i then ?m else te"
    have sv: "save s i = s\<lparr>timeEntries := map ?f (timeEntries s), changes := (changes s)(i := None)\<rparr>"
      using Some c by (simp add: save_def clearChanges_def)
    have pc: "pending_ok c" using w c by (rule run_inv_pending)
    have ide: "id' e = Some i" using find_entry_Some [OF Some] by simp
    have idm: "id' ?m = Some i"
      using pc ide by (simp add: spread_entry_def pending_ok_def)
    have "id' (?f te) = id' te" for te
      using idm by simp
    then have ids: "map id' (map ?f (timeEntries s)) = map id' (timeEntries s)"
      by (simp add: comp_def)
    have "canonical_ok ?m"
      using run_inv_canonical [OF w find_entry_mem [OF Some]] pc by (rule canonical_ok_spread)
    then have can: "list_all canonical_ok (map ?f (timeEntries s))"
      using run_inv_canonical [OF w] by (auto simp: list_all_iff)
    show ?thesis
      using w d ids can unfolding sv by (simp add: run_inv_def)
  qed
qed

lemma run_inv_dispatch:
  assumes w: "run_inv s" and e: "enabled dayOfYear s e"
  shows "run_inv (dispatch s e)"
proof (cases e)
  case Tick
  with w e show ?thesis by (simp add: run_inv_tick mounted_dated)
next
  case (SelectDate d)
  with w e show ?thesis by (simp add: run_inv_setCurrentDate mounted_dated)
next
  case (Start i)
  with w e show ?thesis using run_inv_has_card_id [OF w, of dayOfYear i] by (simp add: run_inv_start)
next
  case (Pause i)
  with w show ?thesis by (simp add: run_inv_pause)
next
  case (EditNotes i str)
  with e have "currentDate s \<noteq> None" by (simp add: has_card_selected)
  then have "run_inv (change s i (empty_partial\<lparr>notes := Value str\<rparr>))"
    by (intro run_inv_change [OF w]) (simp_all add: empty_partial_def)
  with EditNotes show ?thesis by simp
next
  case (EditDate i d)
  with e have "currentDate s \<noteq> None" by (simp add: has_card_selected)
  then have "run_inv (change s i (empty_partial\<lparr>date := (case d of None \<Rightarrow> Undefined | Some m \<Rightarrow> Value m)\<rparr>))"
    by (intro run_inv_change [OF w]) (simp_all add: empty_partial_def split: option.splits)
  with EditDate show ?thesis by simp
next
  case (Save i)
  with e have "currentDate s \<noteq> None" using has_card_selected [of dayOfYear s i] by auto
  with w Save show ?thesis by (simp add: run_inv_save)
next
  case (Revert i)
  with e have "currentDate s \<noteq> None" using has_card_selected [of dayOfYear s i] by auto
  with w Revert show ?thesis by (simp add: run_inv_revert)
qed

lemma reachable_run_inv: "reachable dayOfYear (App_init Map.empty d1 d2 now) s \<Longrightarrow> run_inv s"
proof (induction rule: reachable.induct)
  case initial
  show ?case by (rule run_inv_init)
next
  case (step s e)
  then show ?case by (simp add: run_inv_dispatch)
qed


lemma run_inv_distinct: "run_inv s \<Longrightarrow> distinct (map id' (timeEntries s))"
  by (simp add: run_inv_def)

section \<open>Start-up of the page\<close>

lemma startup_changes_None: "startup_changes parse storage = None"
  by (simp add: startup_changes_def initial_changes_def index_props_def)

text \<open>
  C1. The claim is that at start-up the \<^verbatim>\<open>changes\<close> state equals the mapping stored
  under the key \<^verbatim>\<open>'changes'\<close>. The start-up script does read and parse that mapping, but
  hands it to \<^verbatim>\<open>App\<close> as the prop \<^verbatim>\<open>initChanges\<close>, while \<^verbatim>\<open>App\<close> initialises its state
  from the prop \<^verbatim>\<open>savedChanges\<close>: for the stored text \<^verbatim>\<open>{"1":{"time":3}}\<close> the parsed
  mapping is \<^verbatim>\<open>{"1": {time: 3}}\<close> and the \<^verbatim>\<open>changes\<close> state is \<^verbatim>\<open>undefined\<close>
  (\<open>startup_changes_None\<close>: it is \<^verbatim>\<open>undefined\<close> whatever is stored).
\<close>

theorem startup_changes_undefined:
  "localData parse_example storage_example = JObj [(''1'', JObj [(''time'', JNum 3)])] \<and>
   index_props parse_example storage_example =
     [(''initChanges'', Data (JObj [(''1'', JObj [(''time'', JNum 3)])])),
      (''onSaveChanges'', Callback)] \<and>
   startup_changes parse_example storage_example = None"
proof -
  have "stored_example \<noteq> []" by (simp add: stored_example_def)
  then have "localData parse_example storage_example = JObj [(''1'', JObj [(''time'', JNum 3)])]"
    by (simp add: localData_def storage_example_def LOCAL_KEY_CHANGES_def parse_example_def)
  then show ?thesis
    by (simp add: startup_changes_None) (simp add: index_props_def)
qed

section \<open>The timer tick\<close>

lemma js_add_one_exact: "0 \<le> t \<Longrightarrow> t < 2 ^ 53 \<Longrightarrow> js_add t 1 = t + 1"
proof (cases "t + 1 < 2 ^ 53")
  case True
  assume "0 \<le> t"
  with True show ?thesis by (simp add: js_add_def round_double_exact)
next
  case False
  assume "0 \<le> t" and "t < 2 ^ 53"
  with False have t: "t + 1 = 2 ^ 53" by simp
  have "nat (2 ^ 53) = 2 ^ 53" by (simp add: nat_power_eq)
  then have "int (round_nat (nat (2 ^ 53))) = 2 ^ 53"
    by (simp only: round_nat_2_53) simp
  then have "round_double (2 ^ 53) = 2 ^ 53"
    unfolding round_double_def by simp
  with t show ?thesis by (simp add: js_add_def)
qed




lemma seeded_dated: "dated (seeded_state\<lparr>changes := [''1'' \<mapsto> empty_partial\<lparr>time := Value t\<rparr>], activeTimeEntry := a\<rparr>)"
  by (simp add: dated_def seeded_state_def App_init_def EXISTING_TE_def withChanges_def
      spread_entry_def empty_partial_def)

lemma seeded_state_dated: "dated seeded_state"
  by (simp add: dated_def seeded_state_def App_init_def EXISTING_TE_def withChanges_def)

lemma seeded_has_card: "has_card day_of_year seeded_state ''1''"
  by (simp add: has_card_iff seeded_state_dated)
    (simp add: seeded_state_def App_init_def EXISTING_TE_def withChanges_def same_day_def)

lemma start_tick: "tick (start seeded_state ''1'') = ticking 1"
  by (simp add: tick_def start_def change_def currentTime_def js_or_def find_entry_def
      seeded_state_def App_init_def EXISTING_TE_def spread_partial_def empty_partial_def
      ticking_def js_add_one_exact)

lemma tick_ticking:
  assumes "1 \<le> n" and "n < 2 ^ 53"
  shows "tick (ticking n) = ticking (Suc n)"
proof -
  have c: "currentTime (ticking n) ''1'' = int n"
    using assms(1) by (simp add: currentTime_def js_or_def ticking_def empty_partial_def)
  have "int n < 2 ^ 53" using assms(2) by simp
  then have j: "js_add (int n) 1 = int (Suc n)"
    by (simp add: js_add_one_exact)
  have a: "activeTimeEntry (ticking n) = Some ''1''"
    by (simp add: ticking_def)
  have "tick (ticking n) = change (ticking n) ''1'' (empty_partial\<lparr>time := Value (int (Suc n))\<rparr>)"
    by (simp add: tick_def a c j)
  then show ?thesis
    by (simp add: change_def ticking_def spread_partial_def empty_partial_def)
qed

lemma reachable_start: "reachable day_of_year seeded_state (start seeded_state ''1'')"
proof -
  have "enabled day_of_year seeded_state (Start ''1'')"
    using seeded_has_card by (simp add: seeded_state_def App_init_def)
  from reachable.step [OF reachable.initial this] show ?thesis by simp
qed

lemma reachable_ticking:
  "1 \<le> n \<Longrightarrow> n \<le> 2 ^ 53 \<Longrightarrow> reachable day_of_year seeded_state (ticking n)"
proof (induction n)
  case 0
  then show ?case by simp
next
  case (Suc n)
  show ?case
  proof (cases "n = 0")
    case True
    have "enabled day_of_year (start seeded_state ''1'') Tick"
      using seeded_state_dated by (simp add: mounted_dated dated_def start_def)
    from reachable.step [OF reachable_start this] show ?thesis
      by (simp add: True start_tick)
  next
    case False
    with Suc have r: "reachable day_of_year seeded_state (ticking n)" and n: "1 \<le> n" "n < 2 ^ 53"
      by simp_all
    have "enabled day_of_year (ticking n) Tick"
      by (simp add: mounted_dated ticking_def seeded_dated)
    from reachable.step [OF r this] show ?thesis
      by (simp add: tick_ticking [OF n])
  qed
qed


lemma three_ticks_eq: "three_ticks = ticking 3"
proof -
  have "tick (tick (ticking 1)) = ticking 3"
    by (simp add: tick_ticking numeral_3_eq_3)
  then show ?thesis by (simp add: three_ticks_def start_tick)
qed

lemma reachable_three_ticks: "reachable day_of_year seeded_state three_ticks"
  unfolding three_ticks_eq by (rule reachable_ticking) simp_all


section \<open>The dirty-tracking invariant\<close>














section \<open>Save\<close>

lemma onto_if: "onto a b = (if b = Absent then a else read b)"
  by (cases b) simp_all

lemma takes_spread: "takes (spread_entry e c) c"
  by (simp add: takes_def spread_entry_def onto_if)

lemma retains_spread: "retains (spread_entry e c) e c"
  by (simp add: retains_def spread_entry_def)

lemma withChanges_found:
  "id' e = Some i \<Longrightarrow> ch i = Some c \<Longrightarrow> withChanges ch e = spread_entry e c"
  by (simp add: withChanges_def)

lemma save_found:
  "find_entry (timeEntries s) i = Some e \<Longrightarrow> changes s i = Some c \<Longrightarrow>
   save s i =
     s\<lparr>timeEntries := map (\<lambda>te. if id' te = Some i then spread_entry e c else te) (timeEntries s),
       changes := (changes s)(i := None)\<rparr>"
  by (simp add: save_def clearChanges_def)

lemma distinct_other_id:
  assumes "distinct (map id' tes)" and "k < length tes" and "j < length tes" and "j \<noteq> k"
  shows "id' (tes ! j) \<noteq> id' (tes ! k)"
proof -
  have "(map id' tes ! j = map id' tes ! k) = (j = k)"
    using assms by (intro nth_eq_iff_index_eq) simp_all
  with assms(2,3,4) show ?thesis by simp
qed

text \<open>
  C4. When \<^verbatim>\<open>find\<close> returns a canonical entry \<open>e\<close> for the id and the id has a change-set
  record \<open>c\<close>, \<^verbatim>\<open>save(id)\<close> puts the shallow merge of \<open>c\<close> onto \<open>e\<close> in the place of
  \<open>e\<close>: the new entry has, in every field that \<open>c\<close> supplies, what \<open>c\<close> holds there,
  and is as \<open>e\<close> in every other field; it is the merged view that the derived list showed
  for \<open>e\<close> before the save. The list keeps its length and every entry with another id
  stays as it is; where the ids of the list are distinct, every other entry of the list
  stays as it is. The id is no longer a key of the change-set, and the records of the
  other ids, the active timer and the selected date are as before.
\<close>

theorem save_merges:
  assumes "find_entry (timeEntries s) i = Some e" and "changes s i = Some c"
  shows "timeEntries (save s i) =
           map (\<lambda>te. if id' te = Some i then spread_entry e c else te) (timeEntries s) \<and>
         spread_entry e c = withChanges (changes s) e \<and>
         (\<exists>k<length (timeEntries s). timeEntries s ! k = e \<and>
              timeEntries (save s i) ! k = withChanges (changes s) e \<and>
              takes (timeEntries (save s i) ! k) c \<and>
              retains (timeEntries (save s i) ! k) e c \<and>
              (distinct (map id' (timeEntries s)) \<longrightarrow>
                 (\<forall>j<length (timeEntries s). j \<noteq> k \<longrightarrow>
                    timeEntries (save s i) ! j = timeEntries s ! j))) \<and>
         length (timeEntries (save s i)) = length (timeEntries s) \<and>
         (\<forall>k<length (timeEntries s). id' (timeEntries s ! k) \<noteq> Some i \<longrightarrow>
              timeEntries (save s i) ! k = timeEntries s ! k) \<and>
         changes (save s i) i = None \<and> i \<notin> dirtyItems (save s i) \<and>
         (\<forall>j. j \<noteq> i \<longrightarrow> changes (save s i) j = changes s j) \<and>
         activeTimeEntry (save s i) = activeTimeEntry s \<and>
         currentDate (save s i) = currentDate s"
proof -
  from find_entry_Some [OF assms(1)] obtain k where
    e: "id' e = Some i" and k: "k < length (timeEntries s)" "timeEntries s ! k = e"
    by blast
  have w: "withChanges (changes s) e = spread_entry e c"
    using e assms(2) by (rule withChanges_found)
  have sv: "save s i =
     s\<lparr>timeEntries := map (\<lambda>te. if id' te = Some i then spread_entry e c else te) (timeEntries s),
       changes := (changes s)(i := None)\<rparr>"
    using assms by (rule save_found)
  have m: "timeEntries (save s i) ! k = spread_entry e c"
    using k e by (simp add: sv)
  have other: "timeEntries (save s i) ! j = timeEntries s ! j"
    if "distinct (map id' (timeEntries s))" "j < length (timeEntries s)" "j \<noteq> k" for j
  proof -
    have "id' (timeEntries s ! j) \<noteq> Some i"
      using distinct_other_id [OF that(1) k(1) that(2,3)] k(2) e by simp
    with that(2) show ?thesis by (simp add: sv)
  qed
  have "timeEntries s ! k = e \<and>
      timeEntries (save s i) ! k = withChanges (changes s) e \<and>
      takes (timeEntries (save s i) ! k) c \<and>
      retains (timeEntries (save s i) ! k) e c \<and>
      (distinct (map id' (timeEntries s)) \<longrightarrow>
         (\<forall>j<length (timeEntries s). j \<noteq> k \<longrightarrow>
            timeEntries (save s i) ! j = timeEntries s ! j))"
    using k(2) other by (simp add: m w takes_spread retains_spread)
  with k(1) have "\<exists>k<length (timeEntries s). timeEntries s ! k = e \<and>
      timeEntries (save s i) ! k = withChanges (changes s) e \<and>
      takes (timeEntries (save s i) ! k) c \<and>
      retains (timeEntries (save s i) ! k) e c \<and>
      (distinct (map id' (timeEntries s)) \<longrightarrow>
         (\<forall>j<length (timeEntries s). j \<noteq> k \<longrightarrow>
            timeEntries (save s i) ! j = timeEntries s ! j))"
    by blast
  then show ?thesis
    by (simp add: sv w dirtyItems_def)
qed

text \<open>
  Saving entry 1 of \<open>running_state\<close>: the canonical entry takes the pending note and the
  pending time 7, entry 2 is untouched, and entry 1 is clean.
\<close>

theorem save_merges_witness:
  "find_entry (timeEntries running_state) ''1'' = Some entry1 \<and>
   timeEntries (save running_state ''1'') =
     [\<lparr>id' = Some ''1'', notes = Some ''GST: edited'', time = Some 7, date = Some (2021, 32)\<rparr>,
      entry2] \<and>
   changes (save running_state ''1'') ''1'' = None"
proof -
  have f: "find_entry (timeEntries running_state) ''1'' = Some entry1"
    by (simp add: find_entry_def running_state_def clean_state_def entry1_def)
  have c: "changes running_state ''1'' =
      Some (empty_partial\<lparr>notes := Value ''GST: edited'', time := Value 7\<rparr>)"
    by (simp add: running_state_def clean_state_def)
  have t: "timeEntries running_state = [entry1, entry2]"
    by (simp add: running_state_def clean_state_def)
  from save_merges [OF f c] have
    m: "timeEntries (save running_state ''1'') =
          map (\<lambda>te. if id' te = Some ''1'' then
                 spread_entry entry1 (empty_partial\<lparr>notes := Value ''GST: edited'', time := Value 7\<rparr>)
               else te) (timeEntries running_state)" and
    n: "changes (save running_state ''1'') ''1'' = None"
    by blast+
  have "timeEntries (save running_state ''1'') =
     [\<lparr>id' = Some ''1'', notes = Some ''GST: edited'', time = Some 7, date = Some (2021, 32)\<rparr>,
      entry2]"
    by (simp add: m t spread_entry_def empty_partial_def entry1_def entry2_def)
  then show ?thesis
    using f n by simp
qed

text \<open>
  C8. \<^verbatim>\<open>save(id)\<close> returns the state as it is (entry list, change-set, active timer and
  selected date) when no canonical entry has that id or the id has no record in the
  change-set. The handler has no error result: the early \<^verbatim>\<open>return\<close> is its only other
  path.
\<close>

theorem save_noop:
  "find_entry (timeEntries s) i = None \<or> changes s i = None \<Longrightarrow> save s i = s"
  by (auto simp: save_def split: option.splits)

text \<open>Saving a clean entry, and saving an id that no entry has.\<close>

theorem save_noop_witness:
  "changes clean_state ''1'' = None \<and> save clean_state ''1'' = clean_state \<and>
   find_entry (timeEntries running_state) ''3'' = None \<and>
   save running_state ''3'' = running_state"
proof -
  have c: "changes clean_state ''1'' = None"
    by (simp add: clean_state_def)
  have f: "find_entry (timeEntries running_state) ''3'' = None"
    by (simp add: find_entry_def running_state_def clean_state_def entry1_def entry2_def)
  have "save clean_state ''1'' = clean_state"
    by (rule save_noop) (simp add: c)
  moreover have "save running_state ''3'' = running_state"
    by (rule save_noop) (simp add: f)
  ultimately show ?thesis using c f by simp
qed

section \<open>Recording a change\<close>

text \<open>
  C7. \<^verbatim>\<open>change(id, updates)\<close> stores for the id the spread of \<open>updates\<close> onto the
  existing record (onto the empty record when the id was clean, so that the stored record
  is \<open>updates\<close> itself): every field that \<open>updates\<close> supplies has the value
  \<open>updates\<close> gives it, every other field is as in the existing record. After a second
  change whose fields are disjoint from those of the first, the record has the fields of
  both. The records of the other ids and the rest of the state are as before.
\<close>

theorem change_merges:
  "(\<exists>c. changes (change s i u) i = Some c \<and>
        c = spread_partial (case changes s i of None \<Rightarrow> empty_partial | Some old \<Rightarrow> old) u \<and>
        carries c u \<and>
        keeps c (case changes s i of None \<Rightarrow> empty_partial | Some old \<Rightarrow> old) u) \<and>
   (changes s i = None \<longrightarrow> changes (change s i u) i = Some u) \<and>
   (disjoint_fields u v \<longrightarrow>
      (\<exists>c. changes (change (change s i u) i v) i = Some c \<and> carries c u \<and> carries c v)) \<and>
   (\<forall>j. j \<noteq> i \<longrightarrow> changes (change s i u) j = changes s j) \<and>
   timeEntries (change s i u) = timeEntries s \<and>
   currentDate (change s i u) = currentDate s \<and>
   activeTimeEntry (change s i u) = activeTimeEntry s"
  by (simp add: changes_change change_frame carries_spread keeps_spread spread_empty
      carries_spread_disjoint)

text \<open>
  A note recorded on the clean entry 2 is stored as it is; a time recorded after it
  leaves a record with both the note and the time.
\<close>

theorem change_merges_witness:
  "changes clean_state ''2'' = None \<and>
   changes (change clean_state ''2'' (empty_partial\<lparr>notes := Value ''a''\<rparr>)) ''2''
     = Some (empty_partial\<lparr>notes := Value ''a''\<rparr>) \<and>
   (\<exists>c. changes (change (change clean_state ''2'' (empty_partial\<lparr>notes := Value ''a''\<rparr>)) ''2''
                  (empty_partial\<lparr>time := Value 4\<rparr>)) ''2'' = Some c \<and>
        notes c = Value ''a'' \<and> time c = Value 4)"
proof -
  let ?u = "empty_partial\<lparr>notes := Value ''a''\<rparr> :: day Partial"
  let ?v = "empty_partial\<lparr>time := Value 4\<rparr> :: day Partial"
  have n: "changes clean_state ''2'' = None"
    by (simp add: clean_state_def)
  have d: "disjoint_fields ?u ?v"
    by (simp add: disjoint_fields_def empty_partial_def)
  from change_merges [of clean_state "''2''" ?u ?v] n d have
    one: "changes (change clean_state ''2'' ?u) ''2'' = Some ?u" and
    two: "\<exists>c. changes (change (change clean_state ''2'' ?u) ''2'' ?v) ''2'' = Some c \<and>
             carries c ?u \<and> carries c ?v"
    by blast+
  from two obtain c where
    "changes (change (change clean_state ''2'' ?u) ''2'' ?v) ''2'' = Some c"
    "carries c ?u" "carries c ?v"
    by blast
  then have "changes (change (change clean_state ''2'' ?u) ''2'' ?v) ''2'' = Some c \<and>
      notes c = Value ''a'' \<and> time c = Value 4"
    by (simp add: carries_def empty_partial_def)
  then show ?thesis
    using n one by blast
qed

section \<open>Revert and clearChanges\<close>

text \<open>
  C6. \<^verbatim>\<open>revert(id)\<close> removes the id from the change-set, leaves the records of the other
  ids, the canonical entries and the selected date as they are, sets the timer to idle
  when the id is the active one, and leaves the active timer as it is otherwise.
\<close>

theorem revert_clears:
  "changes (revert s i) i = None \<and> i \<notin> dirtyItems (revert s i) \<and>
   (\<forall>j. j \<noteq> i \<longrightarrow> changes (revert s i) j = changes s j) \<and>
   timeEntries (revert s i) = timeEntries s \<and>
   currentDate (revert s i) = currentDate s \<and>
   (activeTimeEntry s = Some i \<longrightarrow> activeTimeEntry (revert s i) = None) \<and>
   (activeTimeEntry s \<noteq> Some i \<longrightarrow> activeTimeEntry (revert s i) = activeTimeEntry s)"
  by (simp add: revert_def clearChanges_def pause_def dirtyItems_def)

text \<open>
  Reverting the running entry 1 stops the timer and drops its record; reverting entry 2
  leaves the timer on entry 1.
\<close>

theorem revert_clears_witness:
  "activeTimeEntry running_state = Some ''1'' \<and>
   activeTimeEntry (revert running_state ''1'') = None \<and>
   changes (revert running_state ''1'') ''1'' = None \<and>
   timeEntries (revert running_state ''1'') = [entry1, entry2] \<and>
   activeTimeEntry (revert running_state ''2'') = Some ''1''"
proof -
  have a: "activeTimeEntry running_state = Some ''1''"
    by (simp add: running_state_def clean_state_def)
  have t: "timeEntries running_state = [entry1, entry2]"
    by (simp add: running_state_def clean_state_def)
  from revert_clears [of running_state "''1''"] revert_clears [of running_state "''2''"]
  show ?thesis by (simp add: a t)
qed

text \<open>
  C10. \<^verbatim>\<open>clearChanges(id)\<close> on an id without a record returns the state as it is, so
  clearing twice is clearing once; \<^verbatim>\<open>revert(id)\<close> on an id that has no record and is not
  the active timer returns the state as it is. States are compared by value: the handler
  still builds a new object and sets it.
\<close>

theorem clearChanges_idempotent:
  "(changes s i = None \<longrightarrow> clearChanges s i = s) \<and>
   clearChanges (clearChanges s i) i = clearChanges s i \<and>
   (changes s i = None \<and> activeTimeEntry s \<noteq> Some i \<longrightarrow> revert s i = s)"
proof -
  have "changes s i = None \<Longrightarrow> (changes s)(i := None) = changes s"
    by (rule fun_upd_idem) simp
  then show ?thesis
    by (simp add: revert_def clearChanges_def)
qed

text \<open>Entry 2 of \<open>running_state\<close> is clean and not running.\<close>

theorem clearChanges_idempotent_witness:
  "changes running_state ''2'' = None \<and> activeTimeEntry running_state \<noteq> Some ''2'' \<and>
   clearChanges running_state ''2'' = running_state \<and>
   revert running_state ''2'' = running_state"
proof -
  have c: "changes running_state ''2'' = None"
    by (simp add: running_state_def clean_state_def)
  have a: "activeTimeEntry running_state \<noteq> Some ''2''"
    by (simp add: running_state_def clean_state_def)
  from clearChanges_idempotent [of running_state "''2''"] c a show ?thesis
    by simp
qed

section \<open>The derived view\<close>

lemma reachable_cleared_card: "reachable day_of_year seeded_state cleared_card_state"
proof -
  have "enabled day_of_year seeded_state (EditDate ''1'' None)"
    using seeded_has_card by simp
  from reachable.step [OF reachable.initial this] show ?thesis
    by (simp only: cleared_card_state_def)
qed

lemma cleared_card_changes:
  "changes cleared_card_state = [''1'' \<mapsto> empty_partial\<lparr>date := Undefined\<rparr>]"
  by (simp add: cleared_card_state_def change_def seeded_state_def App_init_def spread_empty)

lemma cleared_card_rest:
  "timeEntries cleared_card_state = EXISTING_TE (2021, 32) (2021, 32) \<and>
   currentDate cleared_card_state = Some (2021, 32)"
  by (simp add: cleared_card_state_def change_def seeded_state_def App_init_def)

text \<open>
  C5. The claim is that in every state the derived list is the list of the merged
  entries, filtered to those whose date has the day-of-year of the selected date. After
  the date field of card 1 of the seeded application has been cleared, the merged entry 1
  has no date: the list of the claim is entry 2 alone, but the filter calls
  \<^verbatim>\<open>dayOfYear\<close> on \<^verbatim>\<open>undefined\<close> and the render throws. (\<open>view_refines_spec\<close>: in
  every state whose merged entries all have a date, the derived list is the list of the
  claim.)
\<close>

theorem cleared_card_crashes:
  "reachable day_of_year seeded_state cleared_card_state \<and>
   timeEntriesWithChanges day_of_year cleared_card_state = Inl TypeError \<and>
   visible_spec day_of_year cleared_card_state =
     [\<lparr>id' = Some ''2'', notes = Some ''GST: another item'', time = Some 0, date = Some (2021, 32)\<rparr>]"
proof -
  have "\<not> dated cleared_card_state"
    by (simp add: dated_def cleared_card_changes cleared_card_rest EXISTING_TE_def
        withChanges_def spread_entry_def empty_partial_def)
  then have v: "timeEntriesWithChanges day_of_year cleared_card_state = Inl TypeError"
    by (rule view_undated)
  have "visible_spec day_of_year cleared_card_state =
     [\<lparr>id' = Some ''2'', notes = Some ''GST: another item'', time = Some 0, date = Some (2021, 32)\<rparr>]"
    by (simp add: visible_spec_def cleared_card_changes cleared_card_rest EXISTING_TE_def
        merged_spec_def override_def empty_partial_def same_day_def day_of_year_def)
  with v reachable_cleared_card show ?thesis by simp
qed

text \<open>
  C9. In every state of a run from the seed entries in which the selected date is
  cleared, the derived list is empty; so it is in every state with a cleared selected
  date whose render returns, that is in which every merged entry has a date. Setting or
  clearing the selected date leaves the canonical entries, the change-set and the active
  timer as they are.
\<close>

theorem cleared_date_shows_nothing:
  "(reachable dayOfYear (App_init Map.empty d1 d2 now) s \<and> currentDate s = None \<longrightarrow>
      timeEntriesWithChanges dayOfYear s = Inr []) \<and>
   (currentDate s = None \<and> timeEntriesWithChanges dayOfYear s \<noteq> Inl TypeError \<longrightarrow>
      timeEntriesWithChanges dayOfYear s = Inr []) \<and>
   (currentDate s = None \<and> dated s \<longrightarrow> timeEntriesWithChanges dayOfYear s = Inr []) \<and>
   (dated s \<longrightarrow> timeEntriesWithChanges dayOfYear (setCurrentDate s None) = Inr []) \<and>
   timeEntries (setCurrentDate s d) = timeEntries s \<and>
   changes (setCurrentDate s d) = changes s \<and>
   activeTimeEntry (setCurrentDate s d) = activeTimeEntry s"
proof -
  have a: "timeEntriesWithChanges dayOfYear s = Inr []"
    if "reachable dayOfYear (App_init Map.empty d1 d2 now) s" "currentDate s = None"
  proof -
    have "run_inv s" using that(1) by (rule reachable_run_inv)
    with that(2) have "dated s" by (simp add: run_inv_def)
    with that(2) show ?thesis by (rule view_cleared)
  qed
  have b: "timeEntriesWithChanges dayOfYear s = Inr []"
    if "currentDate s = None" "timeEntriesWithChanges dayOfYear s \<noteq> Inl TypeError"
  proof -
    have "dated s" using that(2) view_undated [of s dayOfYear] by blast
    with that(1) show ?thesis by (rule view_cleared)
  qed
  have c: "dated s \<Longrightarrow> timeEntriesWithChanges dayOfYear (setCurrentDate s None) = Inr []"
    by (rule view_cleared) (simp_all add: dated_setCurrentDate, simp add: setCurrentDate_def)
  have d: "currentDate s = None \<and> dated s \<longrightarrow> timeEntriesWithChanges dayOfYear s = Inr []"
    by (simp add: view_cleared)
  have f: "timeEntries (setCurrentDate s d) = timeEntries s \<and>
      changes (setCurrentDate s d) = changes s \<and>
      activeTimeEntry (setCurrentDate s d) = activeTimeEntry s"
    by (simp add: setCurrentDate_def)
  from a b c d f show ?thesis by blast
qed

text \<open>
  Clearing the selected date after three ticks: the two canonical entries are there, the
  list is empty, and the timer still runs on entry 1.
\<close>

theorem cleared_date_shows_nothing_witness:
  "reachable day_of_year seeded_state (dispatch three_ticks (SelectDate None)) \<and>
   currentDate (dispatch three_ticks (SelectDate None)) = None \<and>
   length (timeEntries (dispatch three_ticks (SelectDate None))) = 2 \<and>
   timeEntriesWithChanges day_of_year (dispatch three_ticks (SelectDate None)) = Inr [] \<and>
   activeTimeEntry (dispatch three_ticks (SelectDate None)) = Some ''1''"
proof -
  let ?s = "dispatch three_ticks (SelectDate None)"
  have "enabled day_of_year three_ticks (SelectDate None)"
    by (simp add: mounted_dated three_ticks_eq ticking_def seeded_dated)
  from reachable.step [OF reachable_three_ticks this]
  have r: "reachable day_of_year seeded_state ?s" .
  then have r': "reachable day_of_year (App_init Map.empty (2021, 32) (2021, 32) (2021, 32)) ?s"
    by (simp add: seeded_state_def)
  have n: "currentDate ?s = None"
    by (simp add: setCurrentDate_def)
  have rest: "length (timeEntries ?s) = 2 \<and> activeTimeEntry ?s = Some ''1''"
    by (simp add: setCurrentDate_def three_ticks_eq ticking_def seeded_state_def App_init_def
        EXISTING_TE_def)
  from cleared_date_shows_nothing [of day_of_year "(2021, 32)" "(2021, 32)" "(2021, 32)" ?s] r' n
  have "timeEntriesWithChanges day_of_year ?s = Inr []" by blast
  then show ?thesis
    using r n rest by blast
qed

section \<open>The example scenario\<close>

text \<open>
  After three ticks entry 1 has the pending time 3 and entry 2 is clean; the view shows
  entry 1 with time 3 and entry 2 with time 0; saving entry 1 makes its canonical time 3
  and leaves no dirty id.
\<close>

lemma seed_scenario:
  "changes three_ticks ''1'' = Some (empty_partial\<lparr>time := Value 3\<rparr>) \<and>
   changes three_ticks ''2'' = None \<and>
   timeEntriesWithChanges day_of_year three_ticks =
     Inr [\<lparr>id' = Some ''1'', notes = Some ''GST: hello world'', time = Some 3, date = Some (2021, 32)\<rparr>,
          \<lparr>id' = Some ''2'', notes = Some ''GST: another item'', time = Some 0, date = Some (2021, 32)\<rparr>] \<and>
   map time (timeEntries (save three_ticks ''1'')) = [Some 3, Some 0] \<and>
   dirtyItems (save three_ticks ''1'') = {}"
  by (simp add: three_ticks_eq ticking_def seeded_state_def App_init_def
      timeEntriesWithChanges_def withChanges_def EXISTING_TE_def
      spread_entry_def empty_partial_def day_of_year_def save_def find_entry_def
      clearChanges_def dirtyItems_def)

end
